theory Spec2Isabelle
  imports Main
begin

section \<open>Catch the Falling Squares: the server of \<open>src/server/catchthesquares.py\<close>\<close>

text \<open>
  The development embeds the game loop \<open>game()\<close>, the sprite classes \<open>Paddle\<close> and
  \<open>FallingSquare\<close>, the WebSocket handler and the broadcast task of the server.

  Conventions of the embedding.
  \<^item> Python integers are \<open>int\<close>. The coordinates of a \<open>pygame.Rect\<close> are taken as
    unbounded integers as well.
  \<^item> An exception is a value of type \<open>error\<close>, returned as \<open>Inl\<close>.
  \<^item> \<open>game_state_lock\<close> is a \<open>threading.Lock\<close>, which is not reentrant. The variables
    of \<open>game()\<close> record whether the thread that runs \<open>game()\<close> holds it. When that
    thread asks for the lock while it holds it, it waits for ever: the outcome is
    \<open>Blocks\<close>, with the variables as they are at that moment. Another thread holds
    the lock only for one \<open>with\<close> block that always ends, which delays the game thread
    and never blocks it.
  \<^item> What other threads do between two statements of \<open>game()\<close> enters only as the
    commands that arrive in \<open>control_queue\<close>.
  \<^item> Drawing, fonts and the frame clock have no effect on the state and are left out.
\<close>

subsection \<open>Game constants\<close>

definition SCREEN_WIDTH :: int where "SCREEN_WIDTH = 800"
definition SCREEN_HEIGHT :: int where "SCREEN_HEIGHT = 600"
definition PADDLE_WIDTH :: int where "PADDLE_WIDTH = 100"
definition PADDLE_HEIGHT :: int where "PADDLE_HEIGHT = 20"
definition SQUARE_SIZE :: int where "SQUARE_SIZE = 30"
definition FALL_SPEED :: int where "FALL_SPEED = 3"
definition INITIAL_LIVES :: int where "INITIAL_LIVES = 3"

subsection \<open>Python values and exceptions\<close>

text \<open>
  The values that travel through \<open>json.loads\<close>, \<open>json.dumps\<close>, the control queue and
  the \<open>squares\<close> entry of \<open>game_state\<close>. A dictionary is an association list in
  insertion order.
\<close>

datatype pyval =
    PNone
  | PBool bool
  | PInt int
  | PStr string
  | PList "pyval list"
  | PDict "(string \<times> pyval) list"

datatype error = ValueError | AttributeError | KeyError | JSONDecodeError

text \<open>\<open>str(n)\<close> for a non-negative integer, as the f-string \<open>f"sq_{n}"\<close> formats it.\<close>

fun str_nat :: "nat \<Rightarrow> string" where
  "str_nat n =
     (if n < 10 then [''0123456789'' ! n]
      else str_nat (n div 10) @ [''0123456789'' ! (n mod 10)])"

declare str_nat.simps [simp del]

subsection \<open>\<open>pygame.Rect\<close>\<close>

record Rect =
  rect_x :: int
  rect_y :: int
  rect_w :: int
  rect_h :: int

text \<open>\<open>Surface([w, h]).get_rect()\<close>: a rectangle of that size at the origin.\<close>

definition get_rect :: "int \<Rightarrow> int \<Rightarrow> Rect" where
  "get_rect wd ht = \<lparr>rect_x = 0, rect_y = 0, rect_w = wd, rect_h = ht\<rparr>"

text \<open>The virtual attributes the source reads and assigns.\<close>

definition rect_left :: "Rect \<Rightarrow> int" where
  "rect_left r = rect_x r"

definition rect_right :: "Rect \<Rightarrow> int" where
  "rect_right r = rect_x r + rect_w r"

definition rect_top :: "Rect \<Rightarrow> int" where
  "rect_top r = rect_y r"

definition set_left :: "Rect \<Rightarrow> int \<Rightarrow> Rect" where
  "set_left r v = r\<lparr>rect_x := v\<rparr>"

definition set_right :: "Rect \<Rightarrow> int \<Rightarrow> Rect" where
  "set_right r v = r\<lparr>rect_x := v - rect_w r\<rparr>"

definition set_centerx :: "Rect \<Rightarrow> int \<Rightarrow> Rect" where
  "set_centerx r v = r\<lparr>rect_x := v - rect_w r div 2\<rparr>"

definition set_bottom :: "Rect \<Rightarrow> int \<Rightarrow> Rect" where
  "set_bottom r v = r\<lparr>rect_y := v - rect_h r\<rparr>"

text \<open>
  \<open>Rect.colliderect\<close>: the two rectangles overlap in a region of positive area; a
  rectangle of zero width or height collides with nothing.
\<close>

definition colliderect :: "Rect \<Rightarrow> Rect \<Rightarrow> bool" where
  "colliderect a b =
     (if rect_w a = 0 \<or> rect_h a = 0 \<or> rect_w b = 0 \<or> rect_h b = 0 then False
      else min (rect_x a) (rect_x a + rect_w a) < max (rect_x b) (rect_x b + rect_w b)
         \<and> min (rect_y a) (rect_y a + rect_h a) < max (rect_y b) (rect_y b + rect_h b)
         \<and> max (rect_x a) (rect_x a + rect_w a) > min (rect_x b) (rect_x b + rect_w b)
         \<and> max (rect_y a) (rect_y a + rect_h a) > min (rect_y b) (rect_y b + rect_h b))"

subsection \<open>The shared state\<close>

record Paddle =
  paddle_rect :: Rect
  paddle_speed :: int

record FallingSquare =
  sq_rect :: Rect
  sq_speed :: int
  sq_id :: string

text \<open>
  An element of \<open>game_state['squares']\<close> is a Python object: the game loop stores
  dictionaries there, the broadcast task reads attributes of a sprite from it.
\<close>

datatype pyobj = Value pyval | Sprite FallingSquare

record game_state =
  paddle_x :: int
  squares :: "pyobj list"
  score :: int
  lives :: int
  game_over :: bool

text \<open>The module-level initial value of \<open>game_state\<close>.\<close>

definition game_state_initial :: game_state where
  "game_state_initial =
     \<lparr>paddle_x = SCREEN_WIDTH div 2 - PADDLE_WIDTH div 2, squares = [], score = 0,
      lives = INITIAL_LIVES, game_over = False\<rparr>"

subsection \<open>Inputs of one frame\<close>

text \<open>
  \<open>pygame.key.get_pressed()\<close> at the keys the source reads, the events returned by
  \<open>pygame.event.get()\<close>, and the controls the WebSocket handlers appended to
  \<open>control_queue\<close> since the previous frame. A \<open>SPAWN_SQUARE\<close> event carries the two
  draws that \<open>FallingSquare.__init__\<close> takes from the random generator.
\<close>

record keys =
  K_LEFT :: bool
  K_RIGHT :: bool
  K_r :: bool
  K_q :: bool

datatype event = QUIT | SPAWN_SQUARE nat nat | OTHER_EVENT

record frame =
  events :: "event list"
  pressed :: keys
  arrivals :: "pyval list"

subsection \<open>The variables of \<open>game()\<close> and the lock\<close>

text \<open>
  The variables of \<open>game()\<close> together with the globals it works on: \<open>game_state\<close>,
  \<open>control_queue\<close> and, in \<open>lock_held\<close>, whether the thread that runs \<open>game()\<close> holds
  \<open>game_state_lock\<close>. The group \<open>all_sprites\<close> always holds the paddle, added first,
  and then the members of \<open>falling_squares_pygame_group\<close> (both are filled and emptied
  together, and \<open>kill\<close> removes a sprite from every group), so it has no field of its
  own. A group iterates in insertion order.
\<close>

record game_vars =
  gs :: game_state
  control_queue :: "pyval list"
  paddle :: Paddle
  falling_squares_pygame_group :: "FallingSquare list"
  square_id_counter :: nat
  running :: bool
  lock_held :: bool

text \<open>
  What becomes of a piece of code that may wait for the lock: it returns, it raises,
  or it blocks for ever, with the variables as they are when it starts to wait.
\<close>

datatype 'a outcome = Returns 'a | Raises error | Blocks 'a

definition and_then :: "'a outcome \<Rightarrow> ('a \<Rightarrow> 'a outcome) \<Rightarrow> 'a outcome" where
  "and_then r f = (case r of Returns s \<Rightarrow> f s | Raises e \<Rightarrow> Raises e | Blocks b \<Rightarrow> Blocks b)"

text \<open>
  \<open>game_state_lock.acquire()\<close> and \<open>release()\<close> in the thread of \<open>game()\<close>. Nothing
  releases a lock that the waiting thread holds itself.
\<close>

definition acquire :: "game_vars \<Rightarrow> game_vars outcome" where
  "acquire s = (if lock_held s then Blocks s else Returns (s\<lparr>lock_held := True\<rparr>))"

definition release :: "game_vars \<Rightarrow> game_vars" where
  "release s = s\<lparr>lock_held := False\<rparr>"

text \<open>\<open>with game_state_lock: body\<close>\<close>

definition with_lock :: "(game_vars \<Rightarrow> game_vars outcome) \<Rightarrow> game_vars \<Rightarrow> game_vars outcome" where
  "with_lock body s =
     and_then (acquire s)
       (\<lambda>s1. case body s1 of
                Returns s2 \<Rightarrow> Returns (release s2)
              | Raises e \<Rightarrow> Raises e
              | Blocks b \<Rightarrow> Blocks b)"

subsection \<open>\<open>Paddle\<close>\<close>

text \<open>
  \<open>Paddle.__init__\<close>: centred horizontally, ten pixels above the bottom edge; under
  the lock it writes its position into \<open>game_state\<close>. The caller then assigns the
  new sprite to \<open>paddle\<close>.
\<close>

definition Paddle_init :: "game_vars \<Rightarrow> game_vars outcome" where
  "Paddle_init s =
     (let r0 = get_rect PADDLE_WIDTH PADDLE_HEIGHT;
          r1 = set_centerx r0 (SCREEN_WIDTH div 2);
          r2 = set_bottom r1 (SCREEN_HEIGHT - 10);
          p = \<lparr>paddle_rect = r2, paddle_speed = 8\<rparr>
      in and_then
           (with_lock
              (\<lambda>s1. Returns (s1\<lparr>gs := (gs s1)\<lparr>paddle_x := rect_x (paddle_rect p)\<rparr>\<rparr>)) s)
           (\<lambda>s2. Returns (s2\<lparr>paddle := p\<rparr>)))"

definition move_x :: "Paddle \<Rightarrow> int \<Rightarrow> Paddle" where
  "move_x p d = p\<lparr>paddle_rect := (paddle_rect p)\<lparr>rect_x := rect_x (paddle_rect p) + d\<rparr>\<rparr>"

text \<open>
  The loop \<open>while control_queue: control = control_queue.pop(0) ...\<close>: every queued
  control is taken, oldest first; anything but \<open>'left'\<close> and \<open>'right'\<close> is dropped.
\<close>

fun drain_controls :: "Paddle \<Rightarrow> pyval list \<Rightarrow> Paddle" where
  "drain_controls p [] = p"
| "drain_controls p (control # queue) =
     (if control = PStr ''left'' then
        drain_controls (move_x p (- paddle_speed p)) queue
      else if control = PStr ''right'' then
        drain_controls (move_x p (paddle_speed p)) queue
      else drain_controls p queue)"

text \<open>The two \<open>if\<close>s that keep the paddle within the screen, after all input.\<close>

definition keep_in_bounds :: "Paddle \<Rightarrow> Paddle" where
  "keep_in_bounds p =
     (let p1 = (if rect_left (paddle_rect p) < 0
                then p\<lparr>paddle_rect := set_left (paddle_rect p) 0\<rparr> else p);
          p2 = (if rect_right (paddle_rect p1) > SCREEN_WIDTH
                then p1\<lparr>paddle_rect := set_right (paddle_rect p1) SCREEN_WIDTH\<rparr> else p1)
      in p2)"

text \<open>The keyboard part of \<open>Paddle.update\<close>, before the lock is asked for.\<close>

definition keyboard_moves :: "keys \<Rightarrow> Paddle \<Rightarrow> Paddle" where
  "keyboard_moves k p =
     (let p1 = (if K_LEFT k then move_x p (- paddle_speed p) else p)
      in if K_RIGHT k then move_x p1 (paddle_speed p1) else p1)"

text \<open>
  \<open>Paddle.update\<close>: the keyboard; under the lock, the drain of the queue; the clamp;
  under the lock again, the publication of \<open>paddle_x\<close>.
\<close>

definition Paddle_update :: "keys \<Rightarrow> game_vars \<Rightarrow> game_vars outcome" where
  "Paddle_update k s =
     and_then
       (with_lock
          (\<lambda>s1. Returns (s1\<lparr>paddle := drain_controls (paddle s1) (control_queue s1),
                             control_queue := []\<rparr>))
          (s\<lparr>paddle := keyboard_moves k (paddle s)\<rparr>))
       (\<lambda>s2. with_lock
                (\<lambda>s3. Returns (s3\<lparr>gs := (gs s3)\<lparr>paddle_x := rect_x (paddle_rect (paddle s3))\<rparr>\<rparr>))
                (s2\<lparr>paddle := keep_in_bounds (paddle s2)\<rparr>))"

subsection \<open>\<open>FallingSquare\<close>\<close>

text \<open>
  \<open>random.randrange(start, stop)\<close> returns \<open>start + _randbelow(stop - start)\<close>, an
  element of \<open>range(start, stop)\<close>, and raises \<open>ValueError\<close> on an empty range. The
  argument \<open>k\<close> is what the generator supplies, reduced below the width.
\<close>

definition randrange :: "int \<Rightarrow> int \<Rightarrow> nat \<Rightarrow> error + int" where
  "randrange start stop k =
     (if stop \<le> start then Inl ValueError
      else Inr (start + int (k mod nat (stop - start))))"

definition FallingSquare_init :: "string \<Rightarrow> nat \<Rightarrow> nat \<Rightarrow> error + FallingSquare" where
  "FallingSquare_init square_id kx ky =
     (let r0 = get_rect SQUARE_SIZE SQUARE_SIZE in
      case randrange 0 (SCREEN_WIDTH - SQUARE_SIZE) kx of
        Inl e \<Rightarrow> Inl e
      | Inr vx \<Rightarrow>
          (case randrange (- 100) (- SQUARE_SIZE) ky of
             Inl e \<Rightarrow> Inl e
           | Inr vy \<Rightarrow>
               Inr \<lparr>sq_rect = r0\<lparr>rect_x := vx, rect_y := vy\<rparr>, sq_speed = FALL_SPEED,
                    sq_id = square_id\<rparr>))"

definition FallingSquare_update :: "FallingSquare \<Rightarrow> FallingSquare" where
  "FallingSquare_update q = q\<lparr>sq_rect := (sq_rect q)\<lparr>rect_y := rect_y (sq_rect q) + sq_speed q\<rparr>\<rparr>"

subsection \<open>The game loop\<close>

text \<open>
  The variables before \<open>paddle = Paddle()\<close> at the head of \<open>game()\<close>; until that
  assignment the field \<open>paddle\<close> holds a paddle that has not been placed.
\<close>

definition game_vars_initial :: game_vars where
  "game_vars_initial =
     \<lparr>gs = game_state_initial, control_queue = [],
      paddle = \<lparr>paddle_rect = get_rect PADDLE_WIDTH PADDLE_HEIGHT, paddle_speed = 8\<rparr>,
      falling_squares_pygame_group = [], square_id_counter = 0, running = True,
      lock_held = False\<rparr>"

text \<open>The state at the first test of \<open>while running\<close>.\<close>

definition game_start :: game_vars where
  "game_start =
     (case Paddle_init game_vars_initial of
        Returns s \<Rightarrow> s
      | Raises e \<Rightarrow> game_vars_initial
      | Blocks b \<Rightarrow> b)"

text \<open>The body of \<open>for event in pygame.event.get()\<close>.\<close>

fun handle_event :: "game_vars \<Rightarrow> event \<Rightarrow> error + game_vars" where
  "handle_event s QUIT = Inr (s\<lparr>running := False\<rparr>)"
| "handle_event s (SPAWN_SQUARE kx ky) =
     (if \<not> game_over (gs s) then
        (let c = square_id_counter s + 1 in
         case FallingSquare_init (''sq_'' @ str_nat c) kx ky of
           Inl e \<Rightarrow> Inl e
         | Inr new_square \<Rightarrow>
             Inr (s\<lparr>square_id_counter := c,
                    falling_squares_pygame_group :=
                      falling_squares_pygame_group s @ [new_square]\<rparr>))
      else Inr s)"
| "handle_event s OTHER_EVENT = Inr s"

fun handle_events :: "game_vars \<Rightarrow> event list \<Rightarrow> error + game_vars" where
  "handle_events s [] = Inr s"
| "handle_events s (ev # evs) =
     (case handle_event s ev of Inl e \<Rightarrow> Inl e | Inr s' \<Rightarrow> handle_events s' evs)"

text \<open>
  \<open>pygame.sprite.spritecollide(paddle, group, True)\<close>: the members of the group whose
  rectangle collides with the paddle's, in group order, and the group without them.
\<close>

fun spritecollide :: "Paddle \<Rightarrow> FallingSquare list \<Rightarrow> FallingSquare list \<times> FallingSquare list" where
  "spritecollide p [] = ([], [])"
| "spritecollide p (q # grp) =
     (let (crashed, rest) = spritecollide p grp
      in if colliderect (paddle_rect p) (sq_rect q) then (q # crashed, rest)
         else (crashed, q # rest))"

text \<open>\<open>for square in caught_squares: game_state['score'] += 1\<close>\<close>

fun score_caught :: "FallingSquare list \<Rightarrow> game_state \<Rightarrow> game_state" where
  "score_caught [] g = g"
| "score_caught (square # caught_squares) g =
     score_caught caught_squares (g\<lparr>score := score g + 1\<rparr>)"

text \<open>
  The loop over the group that counts misses: it returns the state and
  \<open>missed_squares_to_remove\<close>.
\<close>

fun check_missed ::
  "FallingSquare list \<Rightarrow> game_state \<times> FallingSquare list \<Rightarrow> game_state \<times> FallingSquare list" where
  "check_missed [] (g, missed) = (g, missed)"
| "check_missed (square # grp) (g, missed) =
     (if rect_top (sq_rect square) > SCREEN_HEIGHT then
        (let g1 = g\<lparr>lives := lives g - 1\<rparr>;
             missed1 = missed @ [square];
             g2 = (if lives g1 \<le> 0 then g1\<lparr>game_over := True\<rparr> else g1)
         in check_missed grp (g2, missed1))
      else check_missed grp (g, missed))"

text \<open>
  The dictionary the game loop stores for a square:
  \<open>{'x': sq.rect.x, 'y': sq.rect.y, 'id': sq.id}\<close>.
\<close>

definition square_dict :: "FallingSquare \<Rightarrow> pyobj" where
  "square_dict sq =
     Value (PDict [(''x'', PInt (rect_x (sq_rect sq))), (''y'', PInt (rect_y (sq_rect sq))),
                   (''id'', PStr (sq_id sq))])"

text \<open>
  The body of \<open>if not game_state['game_over']\<close>, which \<open>game()\<close> runs inside its own
  \<open>with game_state_lock\<close>: \<open>all_sprites.update()\<close> (the paddle, then every square),
  catches, misses, publication of \<open>squares\<close>. The \<open>kill\<close> of the marked squares
  compares sprites by value; a square is marked on account of its value alone, so this
  removes the sprites the source removes.
\<close>

definition game_logic :: "keys \<Rightarrow> game_vars \<Rightarrow> game_vars outcome" where
  "game_logic k s =
     and_then (Paddle_update k s)
       (\<lambda>s1. let group1 = map FallingSquare_update (falling_squares_pygame_group s1);
                  (caught_squares, group2) = spritecollide (paddle s1) group1;
                  g1 = score_caught caught_squares (gs s1);
                  (g2, missed_squares_to_remove) = check_missed group2 (g1, []);
                  group3 = filter (\<lambda>sq. sq \<notin> set missed_squares_to_remove) group2;
                  g3 = g2\<lparr>squares := map square_dict group3\<rparr>;
                  g4 = (if lives g3 \<le> 0 then g3\<lparr>game_over := True\<rparr> else g3)
              in Returns (s1\<lparr>gs := g4, falling_squares_pygame_group := group3\<rparr>))"

text \<open>
  The reset under \<open>if keys[pygame.K_r]\<close>: the fields of \<open>game_state\<close> under the lock,
  then the groups, then a new paddle; the queue and the id counter stay.
\<close>

definition restart :: "game_vars \<Rightarrow> game_vars outcome" where
  "restart s =
     and_then
       (with_lock
          (\<lambda>s1. Returns (s1\<lparr>gs := (gs s1)\<lparr>score := 0, lives := INITIAL_LIVES, game_over := False,
                                             squares := []\<rparr>\<rparr>)) s)
       (\<lambda>s2. Paddle_init (s2\<lparr>falling_squares_pygame_group := []\<rparr>))"

text \<open>The block under \<open>if game_state['game_over']\<close>, after drawing.\<close>

definition game_over_screen :: "keys \<Rightarrow> game_vars \<Rightarrow> game_vars outcome" where
  "game_over_screen k s =
     (if game_over (gs s) then
        (if K_r k then restart s
         else if K_q k then Returns (s\<lparr>running := False\<rparr>)
         else Returns s)
      else Returns s)"

text \<open>
  One pass through the body of \<open>while running\<close>: the events, the game logic under
  the lock, the game-over screen.
\<close>

definition game_iteration :: "frame \<Rightarrow> game_vars \<Rightarrow> game_vars outcome" where
  "game_iteration f s =
     (case handle_events (s\<lparr>control_queue := control_queue s @ arrivals f\<rparr>) (events f) of
        Inl e \<Rightarrow> Raises e
      | Inr s1 \<Rightarrow>
          and_then
            (with_lock
               (\<lambda>s2. if \<not> game_over (gs s2) then game_logic (pressed f) s2 else Returns s2) s1)
            (game_over_screen (pressed f)))"

text \<open>
  \<open>while running\<close> over the frames that are supplied: the loop stops when
  \<open>running\<close> is false, when an exception escapes, or when a pass blocks.
\<close>

fun game :: "game_vars \<Rightarrow> frame list \<Rightarrow> game_vars outcome" where
  "game s [] = Returns s"
| "game s (f # fs) =
     (if running s then
        (case game_iteration f s of
           Returns s' \<Rightarrow> game s' fs
         | Raises e \<Rightarrow> Raises e
         | Blocks b \<Rightarrow> Blocks b)
      else Returns s)"

subsection \<open>The WebSocket handler\<close>

text \<open>
  An inbound text message is either one on which \<open>json.loads\<close> raises or one that
  parses to a value.
\<close>

datatype message = Undecodable | Json pyval

definition json_loads :: "message \<Rightarrow> error + pyval" where
  "json_loads message = (case message of Undecodable \<Rightarrow> Inl JSONDecodeError | Json v \<Rightarrow> Inr v)"

text \<open>
  \<open>data.get(key)\<close>: the method of a dictionary, \<open>None\<close> for a missing key. A value
  of any other type has no attribute \<open>get\<close>.
\<close>

definition py_get :: "pyval \<Rightarrow> string \<Rightarrow> error + pyval" where
  "py_get data key =
     (case data of
        PDict items \<Rightarrow> Inr (case map_of items key of None \<Rightarrow> PNone | Some v \<Rightarrow> v)
      | _ \<Rightarrow> Inl AttributeError)"

definition register :: "'c \<Rightarrow> 'c set \<Rightarrow> 'c set" where
  "register websocket connected_clients = insert websocket connected_clients"

text \<open>\<open>set.remove\<close> raises \<open>KeyError\<close> when the element is absent.\<close>

definition unregister :: "'c \<Rightarrow> 'c set \<Rightarrow> error + 'c set" where
  "unregister websocket connected_clients =
     (if websocket \<in> connected_clients then Inr (connected_clients - {websocket})
      else Inl KeyError)"

text \<open>The body of \<open>async for message in websocket\<close>, on the control queue.\<close>

definition on_message :: "message \<Rightarrow> pyval list \<Rightarrow> error + pyval list" where
  "on_message message cq =
     (case json_loads message of
        Inl e \<Rightarrow> Inl e
      | Inr data \<Rightarrow>
          (case py_get data ''type'' of
             Inl e \<Rightarrow> Inl e
           | Inr t \<Rightarrow>
               if t = PStr ''control'' then
                 (case py_get data ''direction'' of
                    Inl e \<Rightarrow> Inl e
                  | Inr direction \<Rightarrow> Inr (cq @ [direction]))
               else Inr cq))"

text \<open>
  The loop itself, inside the \<open>try\<close>: it ends when the connection has no further
  message (the connection closed) or when the body raises. It returns the exception
  that left the loop, if any, the queue, and the number of messages it took from the
  connection.
\<close>

fun receive :: "message list \<Rightarrow> pyval list \<Rightarrow> nat \<Rightarrow> error option \<times> pyval list \<times> nat" where
  "receive [] cq n = (None, cq, n)"
| "receive (message # messages) cq n =
     (case on_message message cq of
        Inl e \<Rightarrow> (Some e, cq, Suc n)
      | Inr cq' \<Rightarrow> receive messages cq' (Suc n))"

text \<open>
  \<open>websocket_handler\<close> for one connection and the messages it will deliver: register,
  the loop, the two \<open>except\<close> clauses (both only print), and \<open>unregister\<close> in
  \<open>finally\<close>. It returns the registry, the queue and the number of messages read.
\<close>

definition websocket_handler ::
  "'c \<Rightarrow> message list \<Rightarrow> 'c set \<times> pyval list \<Rightarrow> error + 'c set \<times> pyval list \<times> nat" where
  "websocket_handler websocket messages st =
     (let clients1 = register websocket (fst st);
          (raised, cq1, n) = receive messages (snd st) 0
      in case unregister websocket clients1 of
           Inl e \<Rightarrow> Inl e
         | Inr clients2 \<Rightarrow> Inr (clients2, cq1, n))"

subsection \<open>The broadcast task\<close>

text \<open>Attribute access \<open>sq.rect\<close> and \<open>sq.id\<close>: a dictionary has neither attribute.\<close>

definition getattr_rect :: "pyobj \<Rightarrow> error + Rect" where
  "getattr_rect obj = (case obj of Sprite sq \<Rightarrow> Inr (sq_rect sq) | Value v \<Rightarrow> Inl AttributeError)"

definition getattr_id :: "pyobj \<Rightarrow> error + string" where
  "getattr_id obj = (case obj of Sprite sq \<Rightarrow> Inr (sq_id sq) | Value v \<Rightarrow> Inl AttributeError)"

text \<open>\<open>{'x': sq.rect.x, 'y': sq.rect.y, 'id': sq.id}\<close>\<close>

definition client_square :: "pyobj \<Rightarrow> error + pyval" where
  "client_square sq =
     (case getattr_rect sq of
        Inl e \<Rightarrow> Inl e
      | Inr r \<Rightarrow>
          (case getattr_id sq of
             Inl e \<Rightarrow> Inl e
           | Inr i \<Rightarrow> Inr (PDict [(''x'', PInt (rect_x r)), (''y'', PInt (rect_y r)), (''id'', PStr i)])))"

text \<open>The list comprehension over \<open>game_state['squares']\<close>.\<close>

fun client_squares :: "pyobj list \<Rightarrow> error + pyval list" where
  "client_squares [] = Inr []"
| "client_squares (sq # sqs) =
     (case client_square sq of
        Inl e \<Rightarrow> Inl e
      | Inr d \<Rightarrow> (case client_squares sqs of Inl e \<Rightarrow> Inl e | Inr ds \<Rightarrow> Inr (d # ds)))"

definition current_state_for_client :: "game_state \<Rightarrow> error + pyval" where
  "current_state_for_client g =
     (case client_squares (squares g) of
        Inl e \<Rightarrow> Inl e
      | Inr cs \<Rightarrow>
          Inr (PDict [(''paddle_x'', PInt (paddle_x g)), (''squares'', PList cs),
                      (''score'', PInt (score g)), (''lives'', PInt (lives g)),
                      (''game_over'', PBool (game_over g))]))"

text \<open>
  One period of \<open>send_game_state_to_clients\<close>, after the sleep, in the thread of the
  server. The argument \<open>s\<close> is the state in which the thread of \<open>game()\<close> has come to
  rest: a lock it holds there is never released, and the \<open>with game_state_lock\<close> of
  this task waits for ever. Otherwise the result is the messages handed to
  \<open>client.send\<close>, as pairs of client and message. The text that \<open>json.dumps\<close>
  produces is represented by the value it encodes.
\<close>

definition send_game_state_to_clients :: "game_vars \<Rightarrow> 'c set \<Rightarrow> ('c \<times> pyval) set outcome" where
  "send_game_state_to_clients s connected_clients =
     (if connected_clients = {} then Returns {}
      else if lock_held s then Blocks {}
      else (case current_state_for_client (gs s) of
              Inl e \<Rightarrow> Raises e
            | Inr message \<Rightarrow> Returns (connected_clients \<times> {message})))"

subsection \<open>The specification's readings, for comparison\<close>

text \<open>
  The command batch as the specification words it: each movement command is applied
  to \<open>paddle_x\<close> one at a time, with clamping to \<open>[0, screen_width - paddle_width]\<close>
  after every individual application.
\<close>

fun spec_apply_commands :: "int \<Rightarrow> pyval list \<Rightarrow> int" where
  "spec_apply_commands v [] = v"
| "spec_apply_commands v (c # cs) =
     spec_apply_commands
       (max 0 (min (SCREEN_WIDTH - PADDLE_WIDTH)
          (if c = PStr ''left'' then v - 8 else if c = PStr ''right'' then v + 8 else v))) cs"

text \<open>
  The ingest as the specification words it: on decode failure the single malformed
  message is discarded and reading continues with the next one.
\<close>

fun spec_ingest :: "message list \<Rightarrow> pyval list \<Rightarrow> pyval list" where
  "spec_ingest [] cq = cq"
| "spec_ingest (message # messages) cq =
     (case on_message message cq of
        Inl e \<Rightarrow> spec_ingest messages cq
      | Inr cq' \<Rightarrow> spec_ingest messages cq')"

subsection \<open>Concrete inputs\<close>

definition keys_none :: keys where
  "keys_none = \<lparr>K_LEFT = False, K_RIGHT = False, K_r = False, K_q = False\<rparr>"

text \<open>A frame with no event, no key and no arriving control.\<close>

definition frame_idle :: frame where
  "frame_idle = \<lparr>events = [], pressed = keys_none, arrivals = []\<rparr>"

text \<open>
  A frame whose event list holds \<open>n\<close> spawn events (the timer fired \<open>n\<close> times since
  the last \<open>pygame.event.get()\<close>), each with the draws \<open>vx\<close> and 69: the square is
  created at \<open>x = vx mod 770\<close>, \<open>y = -31\<close>.
\<close>

definition frame_spawn :: "nat \<Rightarrow> nat \<Rightarrow> frame" where
  "frame_spawn n vx = \<lparr>events = replicate n (SPAWN_SQUARE vx 69), pressed = keys_none, arrivals = []\<rparr>"

definition frame_keys :: "keys \<Rightarrow> frame" where
  "frame_keys k = \<lparr>events = [], pressed = k, arrivals = []\<rparr>"

definition frame_controls :: "pyval list \<Rightarrow> frame" where
  "frame_controls cs = \<lparr>events = [], pressed = keys_none, arrivals = cs\<rparr>"

text \<open>The message \<open>{"type": "control", "direction": "left"}\<close>.\<close>

definition msg_left :: message where
  "msg_left = Json (PDict [(''type'', PStr ''control''), (''direction'', PStr ''left'')])"

text \<open>
  A state of the variables between two passes of the loop in which the game is over
  and one square is still in the group.
\<close>

definition state_game_over :: game_vars where
  "state_game_over =
     \<lparr>gs = \<lparr>paddle_x = 350,
             squares = [Value (PDict [(''x'', PInt 0), (''y'', PInt 299), (''id'', PStr ''sq_4'')])],
             score = 0, lives = 0, game_over = True\<rparr>,
      control_queue = [],
      paddle = \<lparr>paddle_rect = \<lparr>rect_x = 350, rect_y = 570, rect_w = 100, rect_h = 20\<rparr>,
                 paddle_speed = 8\<rparr>,
      falling_squares_pygame_group =
        [\<lparr>sq_rect = \<lparr>rect_x = 0, rect_y = 299, rect_w = 30, rect_h = 30\<rparr>, sq_speed = 3,
          sq_id = ''sq_4''\<rparr>],
      square_id_counter = 4, running = True, lock_held = False\<rparr>"

subsection \<open>Identifiers in the group\<close>

text \<open>Every id in the group was formed from a counter value already handed out.\<close>

definition ids_inv :: "game_vars \<Rightarrow> bool" where
  "ids_inv s =
     list_all (\<lambda>q. sq_id q \<in> (\<lambda>j. ''sq_'' @ str_nat j) ` {1..square_id_counter s})
       (falling_squares_pygame_group s)"

section \<open>Properties\<close>

lemmas constants =
  SCREEN_WIDTH_def SCREEN_HEIGHT_def PADDLE_WIDTH_def PADDLE_HEIGHT_def
  SQUARE_SIZE_def FALL_SPEED_def INITIAL_LIVES_def

subsection \<open>The loops of one frame\<close>

lemma FallingSquare_init_value:
  "FallingSquare_init square_id kx ky =
     Inr \<lparr>sq_rect = \<lparr>rect_x = int (kx mod 770), rect_y = - 100 + int (ky mod 70),
                     rect_w = SQUARE_SIZE, rect_h = SQUARE_SIZE\<rparr>,
          sq_speed = FALL_SPEED, sq_id = square_id\<rparr>"
  by (simp add: FallingSquare_init_def randrange_def get_rect_def constants)

lemma spritecollide_fst:
  "fst (spritecollide p grp) = filter (\<lambda>q. colliderect (paddle_rect p) (sq_rect q)) grp"
  by (induction grp) (auto simp: Let_def split: prod.splits)

lemma spritecollide_snd:
  "snd (spritecollide p grp) = filter (\<lambda>q. \<not> colliderect (paddle_rect p) (sq_rect q)) grp"
  by (induction grp) (auto simp: Let_def split: prod.splits)

lemma score_caught_score: "score (score_caught cs g) = score g + int (length cs)"
  by (induction cs arbitrary: g) auto

lemma score_caught_rest:
  "lives (score_caught cs g) = lives g" "game_over (score_caught cs g) = game_over g"
  "paddle_x (score_caught cs g) = paddle_x g" "squares (score_caught cs g) = squares g"
  by (induction cs arbitrary: g) auto

lemma check_missed_lives:
  "lives (fst (check_missed grp (g, m))) =
     lives g - int (length (filter (\<lambda>q. SCREEN_HEIGHT < rect_top (sq_rect q)) grp))"
  by (induction grp arbitrary: g m) (auto simp: Let_def)

lemma check_missed_snd:
  "snd (check_missed grp (g, m)) = m @ filter (\<lambda>q. SCREEN_HEIGHT < rect_top (sq_rect q)) grp"
  by (induction grp arbitrary: g m) (auto simp: Let_def)

lemma check_missed_rest:
  "score (fst (check_missed grp (g, m))) = score g"
  "paddle_x (fst (check_missed grp (g, m))) = paddle_x g"
  "squares (fst (check_missed grp (g, m))) = squares g"
  by (induction grp arbitrary: g m) (auto simp: Let_def)

lemma check_missed_game_over:
  "game_over (fst (check_missed grp (g, m))) \<Longrightarrow>
     game_over g \<or> lives (fst (check_missed grp (g, m))) \<le> 0"
proof (induction grp arbitrary: g m)
  case Nil
  then show ?case by simp
next
  case (Cons q grp)
  show ?case
  proof (cases "SCREEN_HEIGHT < rect_top (sq_rect q)")
    case False
    with Cons show ?thesis by simp
  next
    case True
    let ?g1 = "g\<lparr>lives := lives g - 1\<rparr>"
    let ?g2 = "if lives ?g1 \<le> 0 then ?g1\<lparr>game_over := True\<rparr> else ?g1"
    have eq: "check_missed (q # grp) (g, m) = check_missed grp (?g2, m @ [q])"
      using True by (simp add: Let_def)
    from Cons.prems eq have "game_over (fst (check_missed grp (?g2, m @ [q])))" by simp
    from Cons.IH [OF this]
    have "game_over ?g2 \<or> lives (fst (check_missed grp (?g2, m @ [q]))) \<le> 0" .
    moreover have "lives (fst (check_missed grp (?g2, m @ [q]))) \<le> lives ?g2"
      by (simp add: check_missed_lives)
    ultimately show ?thesis
      unfolding eq by (auto split: if_splits)
  qed
qed

lemma check_missed_game_over_mono:
  "game_over g \<Longrightarrow> game_over (fst (check_missed grp (g, m)))"
  by (induction grp arbitrary: g m) (auto simp: Let_def)

lemma drain_controls_shape:
  "rect_w (paddle_rect (drain_controls p cq)) = rect_w (paddle_rect p)"
  "paddle_speed (drain_controls p cq) = paddle_speed p"
  "rect_y (paddle_rect (drain_controls p cq)) = rect_y (paddle_rect p)"
  "rect_h (paddle_rect (drain_controls p cq)) = rect_h (paddle_rect p)"
  by (induction p cq rule: drain_controls.induct) (auto simp: move_x_def)

lemma drain_controls_x:
  "rect_x (paddle_rect (drain_controls p cq)) =
     rect_x (paddle_rect p)
       + paddle_speed p * (int (count_list cq (PStr ''right'')) - int (count_list cq (PStr ''left'')))"
  by (induction p cq rule: drain_controls.induct) (auto simp: move_x_def algebra_simps)

lemma keep_in_bounds_range:
  assumes "rect_w (paddle_rect p) \<le> SCREEN_WIDTH"
  shows "0 \<le> rect_x (paddle_rect (keep_in_bounds p))"
    and "rect_x (paddle_rect (keep_in_bounds p)) \<le> SCREEN_WIDTH - rect_w (paddle_rect p)"
    and "rect_w (paddle_rect (keep_in_bounds p)) = rect_w (paddle_rect p)"
  using assms
  by (auto simp: keep_in_bounds_def Let_def rect_left_def rect_right_def set_left_def set_right_def)

subsection \<open>Events\<close>

lemma handle_event_total: "\<exists>s'. handle_event s ev = Inr s'"
  by (cases ev) (auto simp: FallingSquare_init_value Let_def)

lemma handle_event_frame:
  assumes "handle_event s ev = Inr s'"
  shows "gs s' = gs s" and "paddle s' = paddle s" and "control_queue s' = control_queue s"
    and "lock_held s' = lock_held s"
  using assms by (cases ev; auto simp: FallingSquare_init_value Let_def split: if_splits)+

lemma handle_event_game_over:
  assumes "game_over (gs s)"
  shows "handle_event s ev = Inr s \<or> handle_event s ev = Inr (s\<lparr>running := False\<rparr>)"
  using assms by (cases ev) auto

lemma handle_events_total: "\<exists>s'. handle_events s evs = Inr s'"
proof (induction evs arbitrary: s)
  case Nil
  show ?case by simp
next
  case (Cons ev evs)
  obtain s1 where "handle_event s ev = Inr s1" using handle_event_total by blast
  with Cons show ?case by simp
qed

lemma handle_events_frame:
  "handle_events s evs = Inr s' \<Longrightarrow>
     gs s' = gs s \<and> paddle s' = paddle s \<and> control_queue s' = control_queue s
     \<and> lock_held s' = lock_held s"
proof (induction evs arbitrary: s)
  case Nil
  then show ?case by simp
next
  case (Cons ev evs)
  obtain s1 where s1: "handle_event s ev = Inr s1" using handle_event_total by blast
  with Cons.prems have "handle_events s1 evs = Inr s'" by simp
  from Cons.IH [OF this] handle_event_frame [OF s1] show ?case by simp
qed

lemma handle_events_running_only:
  "game_over (gs s) \<Longrightarrow> handle_events s evs = Inr s' \<Longrightarrow> \<exists>r. s' = s\<lparr>running := r\<rparr>"
proof (induction evs arbitrary: s)
  case Nil
  then have "s' = s\<lparr>running := running s\<rparr>" by simp
  then show ?case by blast
next
  case (Cons ev evs)
  from handle_event_game_over [OF Cons.prems(1), of ev]
  show ?case
  proof
    assume "handle_event s ev = Inr s"
    with Cons show ?thesis by simp
  next
    assume h: "handle_event s ev = Inr (s\<lparr>running := False\<rparr>)"
    with Cons.prems have "handle_events (s\<lparr>running := False\<rparr>) evs = Inr s'" by simp
    from Cons.IH [OF _ this] Cons.prems(1)
    obtain r where "s' = s\<lparr>running := False, running := r\<rparr>" by auto
    then have "s' = s\<lparr>running := r\<rparr>" by simp
    then show ?thesis by blast
  qed
qed

text \<open>A square that has been spawned and not moved lies wholly above the screen.\<close>

lemma handle_event_above:
  assumes "list_all (\<lambda>q. rect_y (sq_rect q) + rect_h (sq_rect q) < 0) (falling_squares_pygame_group s)"
    and "handle_event s ev = Inr s'"
  shows "list_all (\<lambda>q. rect_y (sq_rect q) + rect_h (sq_rect q) < 0) (falling_squares_pygame_group s')"
proof (cases ev)
  case QUIT
  with assms show ?thesis by auto
next
  case OTHER_EVENT
  with assms show ?thesis by auto
next
  case (SPAWN_SQUARE kx ky)
  have "- 100 + int (ky mod 70) + SQUARE_SIZE < 0"
    by (simp add: constants; linarith)
  with assms SPAWN_SQUARE show ?thesis
    by (auto simp: FallingSquare_init_value Let_def split: if_splits)
qed

lemma handle_events_above:
  "list_all (\<lambda>q. rect_y (sq_rect q) + rect_h (sq_rect q) < 0) (falling_squares_pygame_group s) \<Longrightarrow>
   handle_events s evs = Inr s' \<Longrightarrow>
   list_all (\<lambda>q. rect_y (sq_rect q) + rect_h (sq_rect q) < 0) (falling_squares_pygame_group s')"
proof (induction evs arbitrary: s)
  case Nil
  then show ?case by simp
next
  case (Cons ev evs)
  obtain s1 where s1: "handle_event s ev = Inr s1" using handle_event_total by blast
  with Cons.prems have "handle_events s1 evs = Inr s'" by simp
  from Cons.IH [OF handle_event_above [OF Cons.prems(1) s1] this] show ?case .
qed

subsection \<open>The lock\<close>

lemma with_lock_held: "lock_held s \<Longrightarrow> with_lock body s = Blocks s"
  by (simp add: with_lock_def acquire_def and_then_def)

lemma with_lock_free:
  "\<not> lock_held s \<Longrightarrow>
     with_lock body s =
       (case body (s\<lparr>lock_held := True\<rparr>) of
          Returns s2 \<Rightarrow> Returns (s2\<lparr>lock_held := False\<rparr>)
        | Raises e \<Rightarrow> Raises e
        | Blocks b \<Rightarrow> Blocks b)"
  by (simp add: with_lock_def acquire_def and_then_def release_def split: outcome.split)

text \<open>
  \<open>Paddle.update\<close> entered by a thread that holds the lock: the keyboard has moved the
  rectangle, nothing else has happened, and the thread waits.
\<close>

lemma Paddle_update_held:
  "lock_held s \<Longrightarrow> Paddle_update k s = Blocks (s\<lparr>paddle := keyboard_moves k (paddle s)\<rparr>)"
  by (simp add: Paddle_update_def with_lock_held and_then_def)

lemma game_logic_held:
  "lock_held s \<Longrightarrow> game_logic k s = Blocks (s\<lparr>paddle := keyboard_moves k (paddle s)\<rparr>)"
  by (simp add: game_logic_def Paddle_update_held and_then_def)

lemma Paddle_init_free:
  "\<not> lock_held s \<Longrightarrow>
     Paddle_init s =
       Returns (s\<lparr>gs := (gs s)\<lparr>paddle_x := 350\<rparr>, lock_held := False,
                  paddle := \<lparr>paddle_rect = \<lparr>rect_x = 350, rect_y = 570, rect_w = 100, rect_h = 20\<rparr>,
                             paddle_speed = 8\<rparr>\<rparr>)"
  by (simp add: Paddle_init_def with_lock_free and_then_def get_rect_def set_centerx_def
      set_bottom_def constants Let_def)

lemma game_start_value:
  "game_start =
     \<lparr>gs = \<lparr>paddle_x = 350, squares = [], score = 0, lives = INITIAL_LIVES, game_over = False\<rparr>,
      control_queue = [],
      paddle = \<lparr>paddle_rect = \<lparr>rect_x = 350, rect_y = 570, rect_w = 100, rect_h = 20\<rparr>,
                 paddle_speed = 8\<rparr>,
      falling_squares_pygame_group = [], square_id_counter = 0, running = True,
      lock_held = False\<rparr>"
  by (simp add: game_start_def game_vars_initial_def Paddle_init_free game_state_initial_def)

lemma Paddle_init_start: "Paddle_init game_vars_initial = Returns game_start"
  by (simp add: game_start_def game_vars_initial_def Paddle_init_free)

lemma restart_free:
  "\<not> lock_held s \<Longrightarrow>
     restart s =
       Returns (s\<lparr>gs := \<lparr>paddle_x = 350, squares = [], score = 0, lives = INITIAL_LIVES,
                          game_over = False\<rparr>,
                  falling_squares_pygame_group := [], lock_held := False,
                  paddle := \<lparr>paddle_rect = \<lparr>rect_x = 350, rect_y = 570, rect_w = 100, rect_h = 20\<rparr>,
                             paddle_speed = 8\<rparr>\<rparr>)"
  by (simp add: restart_def with_lock_free and_then_def Paddle_init_free)

subsection \<open>One pass of the loop\<close>

text \<open>
  A pass that starts with the game not over blocks: \<open>game()\<close> takes the lock, and
  \<open>Paddle.update\<close>, the first \<open>update\<close> of \<open>all_sprites\<close>, asks for it again. The events
  have been handled and the keyboard has moved the rectangle; nothing is published.
\<close>

lemma game_iteration_playing:
  assumes "\<not> game_over (gs s)" and "\<not> lock_held s"
    and "handle_events (s\<lparr>control_queue := control_queue s @ arrivals f\<rparr>) (events f) = Inr s1"
  shows "game_iteration f s =
           Blocks (s1\<lparr>lock_held := True, paddle := keyboard_moves (pressed f) (paddle s1)\<rparr>)"
proof -
  from handle_events_frame [OF assms(3)] assms(1,2)
  have "\<not> game_over (gs s1)" "\<not> lock_held s1" by simp_all
  then show ?thesis
    by (simp add: game_iteration_def assms(3) with_lock_free game_logic_held and_then_def)
qed

text \<open>A pass that starts with the game over and the lock free goes to the game-over screen.\<close>

lemma game_iteration_game_over:
  assumes "game_over (gs s)" and "\<not> lock_held s"
  shows "\<exists>r. game_iteration f s =
           game_over_screen (pressed f)
             (s\<lparr>control_queue := control_queue s @ arrivals f, running := r, lock_held := False\<rparr>)"
proof -
  let ?s0 = "s\<lparr>control_queue := control_queue s @ arrivals f\<rparr>"
  obtain s1 where s1: "handle_events ?s0 (events f) = Inr s1"
    using handle_events_total by blast
  from assms have "game_over (gs ?s0)" by simp
  from handle_events_running_only [OF this s1] obtain r where r: "s1 = ?s0\<lparr>running := r\<rparr>" by blast
  from s1 r assms have "game_iteration f s =
           game_over_screen (pressed f)
             (s\<lparr>control_queue := control_queue s @ arrivals f, running := r, lock_held := False\<rparr>)"
    by (simp add: game_iteration_def with_lock_free and_then_def)
  then show ?thesis by blast
qed

text \<open>
  The loop from its start: with no frame it returns at once; with any frame it blocks
  in the first one.
\<close>

lemma game_first_frame_blocks:
  assumes "handle_events (game_start\<lparr>control_queue := arrivals f\<rparr>) (events f) = Inr s1"
  shows "game game_start (f # fs) =
           Blocks (s1\<lparr>lock_held := True, paddle := keyboard_moves (pressed f) (paddle s1)\<rparr>)"
proof -
  have "handle_events (game_start\<lparr>control_queue := control_queue game_start @ arrivals f\<rparr>)
          (events f) = Inr s1"
    using assms by (simp add: game_start_value)
  from game_iteration_playing [OF _ _ this] show ?thesis
    by (simp add: game_start_value)
qed

lemma game_start_outcome:
  "(fs = [] \<and> game game_start fs = Returns game_start)
   \<or> (\<exists>f fs' b. fs = f # fs' \<and> game game_start fs = Blocks b \<and> gs b = gs game_start
         \<and> lock_held b \<and> control_queue b = arrivals f
         \<and> list_all (\<lambda>q. rect_y (sq_rect q) + rect_h (sq_rect q) < 0)
              (falling_squares_pygame_group b))"
proof (cases fs)
  case Nil
  then show ?thesis by simp
next
  case (Cons f fs')
  obtain s1 where s1: "handle_events (game_start\<lparr>control_queue := arrivals f\<rparr>) (events f) = Inr s1"
    using handle_events_total by blast
  let ?b = "s1\<lparr>lock_held := True, paddle := keyboard_moves (pressed f) (paddle s1)\<rparr>"
  from game_first_frame_blocks [OF s1] Cons have b: "game game_start fs = Blocks ?b" by simp
  from handle_events_frame [OF s1] have fr: "gs ?b = gs game_start" "control_queue ?b = arrivals f"
    by simp_all
  have "list_all (\<lambda>q. rect_y (sq_rect q) + rect_h (sq_rect q) < 0)
          (falling_squares_pygame_group (game_start\<lparr>control_queue := arrivals f\<rparr>))"
    by (simp add: game_start_value)
  from handle_events_above [OF this s1]
  have "list_all (\<lambda>q. rect_y (sq_rect q) + rect_h (sq_rect q) < 0) (falling_squares_pygame_group ?b)"
    by simp
  with Cons b fr show ?thesis by auto
qed

subsection \<open>The WebSocket handler on a malformed message\<close>

lemma receive_append:
  "receive pre cq j = (None, cq1, n) \<Longrightarrow>
     receive (pre @ rest) cq j = receive rest cq1 n \<and> n = j + length pre"
proof (induction pre arbitrary: cq j)
  case Nil
  then show ?case by simp
next
  case (Cons m pre)
  show ?case
  proof (cases "on_message m cq")
    case (Inl e)
    with Cons.prems show ?thesis by simp
  next
    case (Inr b)
    with Cons.prems have "receive pre b (Suc j) = (None, cq1, n)" by simp
    from Cons.IH [OF this] Inr show ?thesis by simp
  qed
qed

lemma on_message_undecodable: "json_loads message = Inl e \<Longrightarrow> on_message message cq = Inl e"
  by (simp add: on_message_def)

text \<open>
  C3, as amended. When the messages \<open>pre\<close> have been handled without an exception,
  leaving the queue \<open>cq1\<close>, a message that fails to decode ends the handler: it has
  read that message and no later one, the queue is \<open>cq1\<close> whatever follows on the
  connection, and the client is no longer registered.
\<close>

theorem decode_failure_ends_handler:
  "receive pre cq 0 = (None, cq1, n) \<Longrightarrow> json_loads message = Inl e \<Longrightarrow>
     websocket_handler websocket (pre @ message # post) (clients, cq) =
       Inr (clients - {websocket}, cq1, Suc (length pre))"
proof -
  assume pre: "receive pre cq 0 = (None, cq1, n)" and bad: "json_loads message = Inl e"
  note ra = receive_append [OF pre, of "message # post"]
  from ra have r: "receive (pre @ message # post) cq 0 = receive (message # post) cq1 n"
    by (rule conjunct1)
  from ra have n: "n = length pre" by (simp del: receive.simps)
  have "receive (message # post) cq1 n = (Some e, cq1, Suc n)"
    by (simp add: on_message_undecodable [OF bad])
  with r n have "receive (pre @ message # post) cq 0 = (Some e, cq1, Suc (length pre))" by simp
  then show ?thesis
    by (simp add: websocket_handler_def register_def unregister_def)
qed

theorem decode_failure_ends_handler_witness:
  "receive [msg_left] [] 0 = (None, [PStr ''left''], 1)
   \<and> json_loads Undecodable = Inl JSONDecodeError
   \<and> websocket_handler (1::nat) ([msg_left] @ Undecodable # [msg_left, msg_left]) ({1, 2}, []) =
       Inr ({2}, [PStr ''left''], 2)"
proof -
  have a: "receive [msg_left] [] 0 = (None, [PStr ''left''], 1)"
    by (simp add: msg_left_def on_message_def json_loads_def py_get_def)
  have b: "json_loads Undecodable = Inl JSONDecodeError"
    by (simp add: json_loads_def)
  from decode_failure_ends_handler [OF a b, of "1::nat" "[msg_left, msg_left]" "{1, 2}"] a b
  show ?thesis by (simp add: insert_Diff_if)
qed

text \<open>
  C3 as stated fails. A connection delivers a malformed message and then a \<open>left\<close>
  control. The handler reads one message, pushes nothing and unregisters the
  client; discarding only the malformed message, as the claim has it, would push
  \<open>left\<close>.
\<close>

theorem malformed_message_drops_connection:
  "websocket_handler (1::nat) [Undecodable, msg_left] ({2}, []) = Inr ({2}, [], 1)
   \<and> spec_ingest [Undecodable, msg_left] [] = [PStr ''left'']"
  by (simp add: websocket_handler_def register_def unregister_def msg_left_def on_message_def
      json_loads_def py_get_def)

subsection \<open>Spawned squares and their identifiers\<close>

lemma digit_inj:
  "a < 10 \<Longrightarrow> b < 10 \<Longrightarrow> ''0123456789'' ! a = ''0123456789'' ! b \<Longrightarrow> a = b"
proof -
  assume "a < 10" "b < 10" "''0123456789'' ! a = ''0123456789'' ! b"
  moreover have "distinct ''0123456789''" by simp
  ultimately show "a = b" by (simp add: nth_eq_iff_index_eq)
qed

lemma str_nat_nonempty: "str_nat n \<noteq> []"
  by (subst str_nat.simps) simp

lemma str_nat_length_one: "length (str_nat n) = 1 \<Longrightarrow> n < 10"
proof (rule ccontr)
  assume l: "length (str_nat n) = 1" and "\<not> n < 10"
  then have "str_nat n = str_nat (n div 10) @ [''0123456789'' ! (n mod 10)]"
    by (subst str_nat.simps) simp
  with l have "str_nat (n div 10) = []" by simp
  with str_nat_nonempty show False by blast
qed

lemma str_nat_inj: "str_nat n = str_nat m \<Longrightarrow> n = m"
proof (induction n arbitrary: m rule: str_nat.induct)
  case (1 n)
  show ?case
  proof (cases "n < 10")
    case True
    then have n: "str_nat n = [''0123456789'' ! n]" by (subst str_nat.simps) simp
    have mn: "str_nat m = [''0123456789'' ! n]"
      unfolding "1.prems" [symmetric] by (rule n)
    then have "length (str_nat m) = 1" by simp
    then have m: "m < 10" by (rule str_nat_length_one)
    then have "str_nat m = [''0123456789'' ! m]" by (subst str_nat.simps) simp
    with mn have "''0123456789'' ! n = ''0123456789'' ! m" by simp
    with True m show ?thesis by (rule digit_inj)
  next
    case False
    then have n: "str_nat n = str_nat (n div 10) @ [''0123456789'' ! (n mod 10)]"
      by (subst str_nat.simps) simp
    have m10: "\<not> m < 10"
    proof
      assume "m < 10"
      then have "str_nat m = [''0123456789'' ! m]" by (subst str_nat.simps) simp
      then have "length (str_nat m) = 1" by simp
      then have "length (str_nat n) = 1" unfolding "1.prems" .
      with False str_nat_length_one show False by blast
    qed
    then have m: "str_nat m = str_nat (m div 10) @ [''0123456789'' ! (m mod 10)]"
      by (subst str_nat.simps) simp
    have "str_nat (n div 10) @ [''0123456789'' ! (n mod 10)] =
          str_nat (m div 10) @ [''0123456789'' ! (m mod 10)]"
      unfolding n [symmetric] m [symmetric] by (rule "1.prems")
    then have
      a: "str_nat (n div 10) = str_nat (m div 10)"
      and b: "''0123456789'' ! (n mod 10) = ''0123456789'' ! (m mod 10)"
      by simp_all
    from "1.IH" [OF False a] have d: "n div 10 = m div 10" .
    have "n mod 10 = m mod 10" by (rule digit_inj [OF _ _ b]) simp_all
    with d show ?thesis by (metis div_mult_mod_eq)
  qed
qed

lemma ids_inv_start: "ids_inv game_start"
  by (simp add: ids_inv_def game_start_value)

lemma ids_inv_handle_event:
  assumes "ids_inv s" and "handle_event s ev = Inr s'"
  shows "ids_inv s'"
proof (cases ev)
  case QUIT
  with assms show ?thesis by (auto simp: ids_inv_def)
next
  case OTHER_EVENT
  with assms show ?thesis by auto
next
  case (SPAWN_SQUARE kx ky)
  show ?thesis
  proof (cases "game_over (gs s)")
    case True
    with assms SPAWN_SQUARE show ?thesis by simp
  next
    case False
    let ?c = "square_id_counter s + 1"
    from assms(2) SPAWN_SQUARE False obtain q where
      s': "s' = s\<lparr>square_id_counter := ?c,
                   falling_squares_pygame_group := falling_squares_pygame_group s @ [q]\<rparr>"
      and q: "sq_id q = ''sq_'' @ str_nat ?c"
      by (auto simp: FallingSquare_init_value Let_def)
    have sub: "{1..square_id_counter s} \<subseteq> {1..?c}" by auto
    from assms(1) have "list_all (\<lambda>q. sq_id q \<in> (\<lambda>j. ''sq_'' @ str_nat j) ` {1..?c})
       (falling_squares_pygame_group s)"
      unfolding ids_inv_def list_all_iff using sub by blast
    moreover have "sq_id q \<in> (\<lambda>j. ''sq_'' @ str_nat j) ` {1..?c}"
      unfolding q by (rule imageI) simp
    ultimately show ?thesis by (simp add: ids_inv_def s')
  qed
qed

lemma ids_inv_handle_events:
  "ids_inv s \<Longrightarrow> handle_events s evs = Inr s' \<Longrightarrow> ids_inv s'"
proof (induction evs arbitrary: s)
  case Nil
  then show ?case by simp
next
  case (Cons ev evs)
  obtain s1 where s1: "handle_event s ev = Inr s1" using handle_event_total by blast
  with Cons.prems have "handle_events s1 evs = Inr s'" by simp
  from Cons.IH [OF ids_inv_handle_event [OF Cons.prems(1) s1] this] show ?case .
qed

lemma game_iteration_Returns:
  assumes "game_iteration f s = Returns s'"
  shows "\<not> lock_held s \<and> game_over (gs s)
         \<and> (\<exists>r. game_over_screen (pressed f)
                 (s\<lparr>control_queue := control_queue s @ arrivals f, running := r,
                     lock_held := False\<rparr>) = Returns s')"
proof -
  obtain s1 where
    s1: "handle_events (s\<lparr>control_queue := control_queue s @ arrivals f\<rparr>) (events f) = Inr s1"
    using handle_events_total by blast
  have free: "\<not> lock_held s"
  proof
    assume "lock_held s"
    with handle_events_frame [OF s1] have "lock_held s1" by simp
    then have "game_iteration f s = Blocks s1"
      by (simp add: game_iteration_def s1 with_lock_held and_then_def)
    with assms show False by simp
  qed
  have over: "game_over (gs s)"
  proof (rule ccontr)
    assume "\<not> game_over (gs s)"
    from game_iteration_playing [OF this free s1] assms show False by simp
  qed
  from game_iteration_game_over [OF over free, of f] assms free over show ?thesis by auto
qed

lemma ids_inv_step:
  assumes "ids_inv s" and "game_iteration f s = Returns s'"
  shows "ids_inv s'"
proof -
  from game_iteration_Returns [OF assms(2)] obtain r where
    free: "\<not> lock_held s" and
    scr: "game_over_screen (pressed f)
            (s\<lparr>control_queue := control_queue s @ arrivals f, running := r,
                lock_held := False\<rparr>) = Returns s'"
    by blast
  from scr assms(1) show ?thesis
    by (auto simp: game_over_screen_def restart_free ids_inv_def split: if_splits)
qed

text \<open>What holds at the start and is kept by every pass that returns holds when the loop returns.\<close>

lemma game_returns_invariant:
  assumes step: "\<And>f s s'. P s \<Longrightarrow> game_iteration f s = Returns s' \<Longrightarrow> P s'"
  shows "P s \<Longrightarrow> game s fs = Returns s' \<Longrightarrow> P s'"
proof (induction fs arbitrary: s)
  case Nil
  then show ?case by simp
next
  case (Cons f fs)
  show ?case
  proof (cases "running s")
    case False
    with Cons.prems show ?thesis by simp
  next
    case True
    with Cons.prems(2) obtain s1 where s1: "game_iteration f s = Returns s1"
      and rest: "game s1 fs = Returns s'"
      by (cases "game_iteration f s") simp_all
    from Cons.IH [OF step [OF Cons.prems(1) s1] rest] show ?thesis .
  qed
qed

lemma ids_inv_reachable: "game game_start fs = Returns s \<Longrightarrow> ids_inv s"
  by (rule game_returns_invariant [where P = ids_inv, OF ids_inv_step ids_inv_start])

lemma ids_inv_fresh:
  assumes "ids_inv s"
  shows "''sq_'' @ str_nat (square_id_counter s + 1) \<notin> sq_id ` set (falling_squares_pygame_group s)"
proof
  assume "''sq_'' @ str_nat (square_id_counter s + 1) \<in> sq_id ` set (falling_squares_pygame_group s)"
  then obtain q where "q \<in> set (falling_squares_pygame_group s)"
    and q: "sq_id q = ''sq_'' @ str_nat (square_id_counter s + 1)" by auto
  with assms obtain j where j: "j \<in> {1..square_id_counter s}" and "sq_id q = ''sq_'' @ str_nat j"
    by (auto simp: ids_inv_def list_all_iff)
  with q have "str_nat j = str_nat (square_id_counter s + 1)" by simp
  then have "j = square_id_counter s + 1" by (rule str_nat_inj)
  with j show False by simp
qed

text \<open>
  C9, as amended. Take any state in which a spawn event is handled: the loop has run
  some frames, the controls \<open>cs\<close> have arrived and the events \<open>evs\<close> of the current
  frame have been handled, and the game is not over. The square is appended to the
  group with \<open>0 \<le> x \<le> SCREEN_WIDTH - SQUARE_SIZE - 1\<close> and
  \<open>-100 \<le> y \<le> - SQUARE_SIZE - 1\<close>, so it lies wholly above the screen, and with an id
  that no square of the group carries. Every \<open>x\<close> of that range is the outcome of some
  draw.
\<close>

theorem spawned_square_range_and_fresh_id:
  "game game_start fs = Returns s0 \<Longrightarrow>
   handle_events (s0\<lparr>control_queue := control_queue s0 @ cs\<rparr>) evs = Inr s \<Longrightarrow>
   \<not> game_over (gs s) \<Longrightarrow>
     \<exists>q. handle_event s (SPAWN_SQUARE kx ky) =
            Inr (s\<lparr>square_id_counter := square_id_counter s + 1,
                   falling_squares_pygame_group := falling_squares_pygame_group s @ [q]\<rparr>)
        \<and> 0 \<le> rect_x (sq_rect q) \<and> rect_x (sq_rect q) \<le> SCREEN_WIDTH - SQUARE_SIZE - 1
        \<and> - 100 \<le> rect_y (sq_rect q) \<and> rect_y (sq_rect q) \<le> - SQUARE_SIZE - 1
        \<and> rect_y (sq_rect q) + rect_h (sq_rect q) < 0
        \<and> sq_id q \<notin> sq_id ` set (falling_squares_pygame_group s)
        \<and> (\<forall>vx. 0 \<le> vx \<and> vx \<le> SCREEN_WIDTH - SQUARE_SIZE - 1 \<longrightarrow>
              (\<exists>k q'. FallingSquare_init (sq_id q) k ky = Inr q' \<and> rect_x (sq_rect q') = vx))"
proof -
  assume run: "game game_start fs = Returns s0"
    and evs: "handle_events (s0\<lparr>control_queue := control_queue s0 @ cs\<rparr>) evs = Inr s"
    and playing: "\<not> game_over (gs s)"
  from ids_inv_reachable [OF run] have "ids_inv s0" .
  then have "ids_inv (s0\<lparr>control_queue := control_queue s0 @ cs\<rparr>)" by (simp add: ids_inv_def)
  from ids_inv_handle_events [OF this evs] have inv: "ids_inv s" .
  let ?sid = "''sq_'' @ str_nat (square_id_counter s + 1)"
  let ?q = "\<lparr>sq_rect = \<lparr>rect_x = int (kx mod 770), rect_y = - 100 + int (ky mod 70),
                     rect_w = SQUARE_SIZE, rect_h = SQUARE_SIZE\<rparr>,
          sq_speed = FALL_SPEED, sq_id = ?sid\<rparr>"
  have ev: "handle_event s (SPAWN_SQUARE kx ky) =
            Inr (s\<lparr>square_id_counter := square_id_counter s + 1,
                   falling_squares_pygame_group := falling_squares_pygame_group s @ [?q]\<rparr>)"
    using playing by (simp add: FallingSquare_init_value Let_def)
  have xr: "0 \<le> rect_x (sq_rect ?q) \<and> rect_x (sq_rect ?q) \<le> SCREEN_WIDTH - SQUARE_SIZE - 1"
    by (simp add: constants; linarith)
  have yr: "- 100 \<le> rect_y (sq_rect ?q) \<and> rect_y (sq_rect ?q) \<le> - SQUARE_SIZE - 1
            \<and> rect_y (sq_rect ?q) + rect_h (sq_rect ?q) < 0"
    by (simp add: constants; linarith)
  have fresh: "sq_id ?q \<notin> sq_id ` set (falling_squares_pygame_group s)"
    using ids_inv_fresh [OF inv] by simp
  have poss: "\<exists>k q'. FallingSquare_init (sq_id ?q) k ky = Inr q' \<and> rect_x (sq_rect q') = vx"
    if "0 \<le> vx \<and> vx \<le> SCREEN_WIDTH - SQUARE_SIZE - 1" for vx
  proof -
    from that have r: "0 \<le> vx \<and> vx \<le> 769" by (simp add: constants)
    then have "nat vx < 770" by linarith
    then have "nat vx mod 770 = nat vx" by simp
    with r have "int (nat vx mod 770) = vx" by auto
    then show ?thesis
      by (intro exI [of _ "nat vx"]) (simp add: FallingSquare_init_value)
  qed
  from ev xr yr fresh poss show ?thesis by blast
qed

theorem spawned_square_range_and_fresh_id_witness:
  "\<exists>s. game game_start [] = Returns game_start
     \<and> handle_events (game_start\<lparr>control_queue := control_queue game_start @ []\<rparr>)
           [SPAWN_SQUARE 5 5] = Inr s
     \<and> \<not> game_over (gs s)
     \<and> map sq_id (falling_squares_pygame_group s) = [''sq_1'']
     \<and> (\<exists>q. handle_event s (SPAWN_SQUARE 769 69) =
            Inr (s\<lparr>square_id_counter := square_id_counter s + 1,
                   falling_squares_pygame_group := falling_squares_pygame_group s @ [q]\<rparr>)
          \<and> rect_x (sq_rect q) = 769 \<and> rect_y (sq_rect q) = - 31 \<and> sq_id q = ''sq_2''
          \<and> sq_id q \<notin> sq_id ` set (falling_squares_pygame_group s))"
proof -
  let ?S = "game_start\<lparr>square_id_counter := 1,
              falling_squares_pygame_group :=
                [\<lparr>sq_rect = \<lparr>rect_x = 5, rect_y = - 95, rect_w = 30, rect_h = 30\<rparr>,
                  sq_speed = 3, sq_id = ''sq_1''\<rparr>]\<rparr>"
  have run: "game game_start [] = Returns game_start" by simp
  have he: "handle_events (game_start\<lparr>control_queue := control_queue game_start @ []\<rparr>)
           [SPAWN_SQUARE 5 5] = Inr ?S"
    by (simp add: game_start_value FallingSquare_init_value str_nat.simps constants)
  have playing: "\<not> game_over (gs ?S)" by (simp add: game_start_value)
  from spawned_square_range_and_fresh_id [OF run he playing, of 769 69] obtain q where
    eq: "handle_event ?S (SPAWN_SQUARE 769 69) =
            Inr (?S\<lparr>square_id_counter := square_id_counter ?S + 1,
                   falling_squares_pygame_group := falling_squares_pygame_group ?S @ [q]\<rparr>)"
    and fresh: "sq_id q \<notin> sq_id ` set (falling_squares_pygame_group ?S)"
    by blast
  have "handle_event ?S (SPAWN_SQUARE 769 69) =
          Inr (?S\<lparr>square_id_counter := 2,
                 falling_squares_pygame_group := falling_squares_pygame_group ?S @
                   [\<lparr>sq_rect = \<lparr>rect_x = 769, rect_y = - 31, rect_w = 30, rect_h = 30\<rparr>,
                     sq_speed = 3, sq_id = ''sq_2''\<rparr>]\<rparr>)"
    by (simp add: game_start_value FallingSquare_init_value str_nat.simps constants)
  with eq have
    "q = \<lparr>sq_rect = \<lparr>rect_x = 769, rect_y = - 31, rect_w = 30, rect_h = 30\<rparr>,
                     sq_speed = 3, sq_id = ''sq_2''\<rparr>"
    by (simp add: game_start_value)
  then have v: "rect_x (sq_rect q) = 769 \<and> rect_y (sq_rect q) = - 31 \<and> sq_id q = ''sq_2''"
    by simp
  have ids: "map sq_id (falling_squares_pygame_group ?S) = [''sq_1'']" by simp
  show ?thesis
  proof (rule exI [of _ ?S], intro conjI)
    show "game game_start [] = Returns game_start" by (rule run)
    show "handle_events (game_start\<lparr>control_queue := control_queue game_start @ []\<rparr>)
           [SPAWN_SQUARE 5 5] = Inr ?S" by (rule he)
    show "\<not> game_over (gs ?S)" by (rule playing)
    show "map sq_id (falling_squares_pygame_group ?S) = [''sq_1'']" by (rule ids)
    show "\<exists>q. handle_event ?S (SPAWN_SQUARE 769 69) =
            Inr (?S\<lparr>square_id_counter := square_id_counter ?S + 1,
                   falling_squares_pygame_group := falling_squares_pygame_group ?S @ [q]\<rparr>)
          \<and> rect_x (sq_rect q) = 769 \<and> rect_y (sq_rect q) = - 31 \<and> sq_id q = ''sq_2''
          \<and> sq_id q \<notin> sq_id ` set (falling_squares_pygame_group ?S)"
    proof (rule exI [of _ q], intro conjI)
      show "handle_event ?S (SPAWN_SQUARE 769 69) =
            Inr (?S\<lparr>square_id_counter := square_id_counter ?S + 1,
                   falling_squares_pygame_group := falling_squares_pygame_group ?S @ [q]\<rparr>)"
        by (rule eq)
      show "rect_x (sq_rect q) = 769" using v by (rule conjunct1)
      show "rect_y (sq_rect q) = - 31" using v by (elim conjE)
      show "sq_id q = ''sq_2''" using v by (elim conjE)
      show "sq_id q \<notin> sq_id ` set (falling_squares_pygame_group ?S)" by (rule fresh)
    qed
  qed
qed

text \<open>
  C9 as stated fails: no draw puts a square at \<open>x = SCREEN_WIDTH - SQUARE_SIZE\<close>;
  \<open>randrange\<close> excludes its upper bound.
\<close>

theorem right_edge_never_spawned:
  "\<not> (\<exists>kx ky q. FallingSquare_init ''sq_1'' kx ky = Inr q
         \<and> rect_x (sq_rect q) = SCREEN_WIDTH - SQUARE_SIZE)"
proof
  assume "\<exists>kx ky q. FallingSquare_init ''sq_1'' kx ky = Inr q
         \<and> rect_x (sq_rect q) = SCREEN_WIDTH - SQUARE_SIZE"
  then obtain kx :: nat where "int (kx mod 770) = SCREEN_WIDTH - SQUARE_SIZE"
    by (auto simp: FallingSquare_init_value)
  then have "int (kx mod 770) = 770" by (simp add: constants)
  moreover have "kx mod 770 < 770" by simp
  ultimately show False by linarith
qed

subsection \<open>The published state of every run\<close>







subsection \<open>What the first frame leaves undone\<close>



text \<open>
  C5. Whatever the first frame brings, the loop blocks in it before the queue is
  drained: the controls that have arrived are still in the queue and \<open>paddle_x\<close> is
  what it was. No movement command is ever applied.
\<close>

theorem no_control_is_ever_applied:
  "case game game_start (f # fs) of
     Returns s \<Rightarrow> False
   | Raises e \<Rightarrow> False
   | Blocks b \<Rightarrow>
       lock_held b \<and> control_queue b = arrivals f \<and> paddle_x (gs b) = paddle_x (gs game_start)"
  using game_start_outcome [of "f # fs"] by (auto simp del: game.simps)

theorem no_control_is_ever_applied_witness:
  "case game game_start (frame_controls [PStr ''right''] # replicate 3 frame_idle) of
     Returns s \<Rightarrow> False
   | Raises e \<Rightarrow> False
   | Blocks b \<Rightarrow>
       paddle_x (gs game_start) = 350
       \<and> spec_apply_commands (paddle_x (gs game_start)) [PStr ''right''] = 358
       \<and> lock_held b \<and> control_queue b = [PStr ''right''] \<and> paddle_x (gs b) = 350"
proof -
  have "paddle_x (gs game_start) = 350
       \<and> spec_apply_commands (paddle_x (gs game_start)) [PStr ''right''] = 358
       \<and> arrivals (frame_controls [PStr ''right'']) = [PStr ''right'']"
    by (simp add: game_start_value frame_controls_def constants)
  with no_control_is_ever_applied [of "frame_controls [PStr ''right'']" "replicate 3 frame_idle"]
  show ?thesis by (auto simp del: game.simps split: outcome.splits)
qed

subsection \<open>The broadcast once the loop has started\<close>

text \<open>
  C2. Once the loop has entered its first frame it is blocked and holds the lock. A
  broadcast period with at least one client then waits for the lock for ever and
  hands nothing to any client; with no client it does nothing.
\<close>

theorem broadcast_blocks_once_loop_started:
  "case game game_start (f # fs) of
     Returns s \<Rightarrow> False
   | Raises e \<Rightarrow> False
   | Blocks b \<Rightarrow>
       send_game_state_to_clients b clients = (if clients = {} then Returns {} else Blocks {})"
proof -
  from game_start_outcome [of "f # fs"] obtain b where
    "game game_start (f # fs) = Blocks b" and "lock_held b" by auto
  then show ?thesis by (simp add: send_game_state_to_clients_def del: game.simps)
qed

theorem broadcast_blocks_once_loop_started_witness:
  "send_game_state_to_clients game_start {1::nat} =
     Returns {(1, PDict [(''paddle_x'', PInt 350), (''squares'', PList []), (''score'', PInt 0),
                        (''lives'', PInt 3), (''game_over'', PBool False)])}
   \<and> (case game game_start [frame_idle] of
        Returns s \<Rightarrow> False
      | Raises e \<Rightarrow> False
      | Blocks b \<Rightarrow> send_game_state_to_clients b {1::nat} = Blocks {})"
proof -
  have "send_game_state_to_clients game_start {1::nat} =
     Returns {(1, PDict [(''paddle_x'', PInt 350), (''squares'', PList []), (''score'', PInt 0),
                        (''lives'', PInt 3), (''game_over'', PBool False)])}"
    by (simp add: send_game_state_to_clients_def current_state_for_client_def game_start_value
        constants)
  with broadcast_blocks_once_loop_started
         [where f = frame_idle and fs = "[]" and clients = "{1::nat}"]
  show ?thesis by (auto simp del: game.simps split: outcome.splits)
qed

subsection \<open>Frames that start with the game over\<close>

text \<open>
  The branch of the loop for a frame that starts with the game over takes the lock
  once at a time and never blocks. No run of \<open>game\<close> from \<open>game_start\<close> reaches it
  (\<open>game_start_outcome\<close>); the statements below are about the branch itself, from any
  state between two passes in which the game is over.
\<close>

lemma game_iteration_game_over_no_restart:
  assumes "game_over (gs s)" and "\<not> lock_held s" and "\<not> K_r (pressed f)"
  shows "\<exists>r. game_iteration f s =
           Returns (s\<lparr>control_queue := control_queue s @ arrivals f, running := r,
                      lock_held := False\<rparr>)"
proof -
  from game_iteration_game_over [OF assms(1,2), of f] obtain r where
    "game_iteration f s =
       game_over_screen (pressed f)
         (s\<lparr>control_queue := control_queue s @ arrivals f, running := r, lock_held := False\<rparr>)"
    by blast
  with assms have
    "game_iteration f s =
       Returns (s\<lparr>control_queue := control_queue s @ arrivals f, running := r, lock_held := False\<rparr>)
     \<or> game_iteration f s =
       Returns (s\<lparr>control_queue := control_queue s @ arrivals f, running := False,
                  lock_held := False\<rparr>)"
    by (auto simp: game_over_screen_def)
  then show ?thesis by blast
qed

lemma game_over_branch_keeps_squares:
  "game_over (gs s) \<Longrightarrow> \<not> lock_held s \<Longrightarrow>
     (list_all (\<lambda>f. \<not> K_r (pressed f)) fs \<longrightarrow>
        (\<exists>s'. game s fs = Returns s' \<and> squares (gs s') = squares (gs s)
              \<and> falling_squares_pygame_group s' = falling_squares_pygame_group s
              \<and> game_over (gs s')))
     \<and> (K_r (pressed f) \<longrightarrow>
        (\<exists>s'. game_iteration f s = Returns s' \<and> squares (gs s') = []
              \<and> falling_squares_pygame_group s' = []))"
proof (intro conjI impI)
  assume go: "game_over (gs s)" and free: "\<not> lock_held s"
  show "\<exists>s'. game s fs = Returns s' \<and> squares (gs s') = squares (gs s)
              \<and> falling_squares_pygame_group s' = falling_squares_pygame_group s
              \<and> game_over (gs s')" if "list_all (\<lambda>f. \<not> K_r (pressed f)) fs"
    using that go free
  proof (induction fs arbitrary: s)
    case Nil
    then show ?case by simp
  next
    case (Cons f fs)
    show ?case
    proof (cases "running s")
      case False
      with Cons.prems show ?thesis by simp
    next
      case True
      from Cons.prems have nr: "\<not> K_r (pressed f)" and rest: "list_all (\<lambda>f. \<not> K_r (pressed f)) fs"
        by simp_all
      from game_iteration_game_over_no_restart [OF Cons.prems(2,3) nr] obtain r where
        it: "game_iteration f s =
               Returns (s\<lparr>control_queue := control_queue s @ arrivals f, running := r,
                          lock_held := False\<rparr>)"
        by blast
      let ?s1 = "s\<lparr>control_queue := control_queue s @ arrivals f, running := r, lock_held := False\<rparr>"
      have "game_over (gs ?s1)" "\<not> lock_held ?s1" using Cons.prems(2) by simp_all
      from Cons.IH [OF rest this] obtain s' where
        "game ?s1 fs = Returns s'" "squares (gs s') = squares (gs ?s1)"
        "falling_squares_pygame_group s' = falling_squares_pygame_group ?s1" "game_over (gs s')"
        by blast
      with True it show ?thesis by simp
    qed
  qed
  show "\<exists>s'. game_iteration f s = Returns s' \<and> squares (gs s') = []
              \<and> falling_squares_pygame_group s' = []" if "K_r (pressed f)"
  proof -
    from game_iteration_game_over [OF go free, of f] obtain r where
      "game_iteration f s =
         game_over_screen (pressed f)
           (s\<lparr>control_queue := control_queue s @ arrivals f, running := r, lock_held := False\<rparr>)"
      by blast
    with that go show ?thesis by (simp add: game_over_screen_def restart_free)
  qed
qed

lemma game_start_published:
  "case game game_start fs of
     Returns s \<Rightarrow> gs s = gs game_start
   | Raises e \<Rightarrow> False
   | Blocks b \<Rightarrow> gs b = gs game_start"
  using game_start_outcome [of fs] by (auto simp del: game.simps)

text \<open>
  C10. In every run of the loop from its start the game is never over and the
  published \<open>squares\<close> stays the empty list it was. And from a state between two
  passes in which the game is over, any number of frames in which the restart key is
  not held (whatever events, other keys and controls they bring) leave the published
  \<open>squares\<close> and the group of falling squares as they were, and the game stays over; a
  frame in which the restart key is held empties both.
\<close>

theorem squares_frozen_while_game_over:
  "(case game game_start fs0 of
      Returns s0 \<Rightarrow> \<not> game_over (gs s0) \<and> squares (gs s0) = []
    | Raises e \<Rightarrow> False
    | Blocks b \<Rightarrow> \<not> game_over (gs b) \<and> squares (gs b) = [])
   \<and> (game_over (gs s) \<and> \<not> lock_held s \<longrightarrow>
        (list_all (\<lambda>f. \<not> K_r (pressed f)) fs \<longrightarrow>
           (\<exists>s'. game s fs = Returns s' \<and> squares (gs s') = squares (gs s)
                 \<and> falling_squares_pygame_group s' = falling_squares_pygame_group s
                 \<and> game_over (gs s')))
        \<and> (K_r (pressed f) \<longrightarrow>
           (\<exists>s'. game_iteration f s = Returns s' \<and> squares (gs s') = []
                 \<and> falling_squares_pygame_group s' = [])))"
proof (rule conjI)
  have "\<not> game_over (gs game_start) \<and> squares (gs game_start) = []"
    by (simp add: game_start_value)
  with game_start_published [of fs0]
  show "case game game_start fs0 of
      Returns s0 \<Rightarrow> \<not> game_over (gs s0) \<and> squares (gs s0) = []
    | Raises e \<Rightarrow> False
    | Blocks b \<Rightarrow> \<not> game_over (gs b) \<and> squares (gs b) = []"
    by (auto simp del: game.simps split: outcome.splits)
  show "game_over (gs s) \<and> \<not> lock_held s \<longrightarrow>
        (list_all (\<lambda>f. \<not> K_r (pressed f)) fs \<longrightarrow>
           (\<exists>s'. game s fs = Returns s' \<and> squares (gs s') = squares (gs s)
                 \<and> falling_squares_pygame_group s' = falling_squares_pygame_group s
                 \<and> game_over (gs s')))
        \<and> (K_r (pressed f) \<longrightarrow>
           (\<exists>s'. game_iteration f s = Returns s' \<and> squares (gs s') = []
                 \<and> falling_squares_pygame_group s' = []))"
    using game_over_branch_keeps_squares [of s fs f] by blast
qed

theorem squares_frozen_while_game_over_witness:
  "(case game game_start [frame_spawn 1 0, frame_idle] of
      Returns s0 \<Rightarrow> False
    | Raises e \<Rightarrow> False
    | Blocks b \<Rightarrow> \<not> game_over (gs b) \<and> squares (gs b) = [])
   \<and> game_over (gs state_game_over) \<and> \<not> lock_held state_game_over
   \<and> squares (gs state_game_over) =
       [Value (PDict [(''x'', PInt 0), (''y'', PInt 299), (''id'', PStr ''sq_4'')])]
   \<and> (\<exists>s'. game state_game_over
              [frame_spawn 2 7, frame_controls [PStr ''left''],
               frame_keys (keys_none\<lparr>K_LEFT := True\<rparr>)] = Returns s'
          \<and> squares (gs s') = squares (gs state_game_over) \<and> game_over (gs s'))
   \<and> (\<exists>s'. game_iteration (frame_keys (keys_none\<lparr>K_r := True\<rparr>)) state_game_over = Returns s'
          \<and> squares (gs s') = [])"
proof -
  have go: "game_over (gs state_game_over)" and free: "\<not> lock_held state_game_over"
    and sq: "squares (gs state_game_over) =
       [Value (PDict [(''x'', PInt 0), (''y'', PInt 299), (''id'', PStr ''sq_4'')])]"
    by (simp_all add: state_game_over_def)
  have nr: "list_all (\<lambda>f. \<not> K_r (pressed f))
              [frame_spawn 2 7, frame_controls [PStr ''left''],
               frame_keys (keys_none\<lparr>K_LEFT := True\<rparr>)]"
    by (simp add: frame_spawn_def frame_controls_def frame_keys_def keys_none_def)
  have r: "K_r (pressed (frame_keys (keys_none\<lparr>K_r := True\<rparr>)))"
    by (simp add: frame_keys_def)
  have blk: "case game game_start [frame_spawn 1 0, frame_idle] of
      Returns s0 \<Rightarrow> False | Raises e \<Rightarrow> False | Blocks b \<Rightarrow> True"
    by code_simp
  note t = squares_frozen_while_game_over [of "[frame_spawn 1 0, frame_idle]" state_game_over
      "[frame_spawn 2 7, frame_controls [PStr ''left''], frame_keys (keys_none\<lparr>K_LEFT := True\<rparr>)]"
      "frame_keys (keys_none\<lparr>K_r := True\<rparr>)"]
  from t blk have real:
    "case game game_start [frame_spawn 1 0, frame_idle] of
      Returns s0 \<Rightarrow> False
    | Raises e \<Rightarrow> False
    | Blocks b \<Rightarrow> \<not> game_over (gs b) \<and> squares (gs b) = []"
    by (auto simp del: game.simps split: outcome.splits)
  from t go free nr r have
    "(\<exists>s'. game state_game_over
              [frame_spawn 2 7, frame_controls [PStr ''left''],
               frame_keys (keys_none\<lparr>K_LEFT := True\<rparr>)] = Returns s'
          \<and> squares (gs s') = squares (gs state_game_over) \<and> game_over (gs s'))
   \<and> (\<exists>s'. game_iteration (frame_keys (keys_none\<lparr>K_r := True\<rparr>)) state_game_over = Returns s'
          \<and> squares (gs s') = [])"
    by blast
  with real go free sq show ?thesis by (simp del: game.simps)
qed





end
